theory Spec2Isabelle
  imports Complex_Main "HOL-Library.Word" "HOL-Library.Log_Nat"
begin

section \<open>EventNotify: the server of \<open>src/server.ts\<close> as a state machine\<close>

text \<open>
  The server keeps all of its state in one \<open>EventNotifyFacade\<close> object (which owns an
  \<open>EventBus\<close>), reads the clock, the UUID generator and the random generator of the Node
  runtime, registers timers with \<open>setTimeout\<close> and writes to open streaming responses.
  The model puts all of that into one record \<open>state\<close>; every method takes the state and
  returns the new one next to its result. An exception is a value \<open>Inl e\<close>.
\<close>

subsection \<open>JavaScript values\<close>

text \<open>
  A JavaScript string is a sequence of UTF-16 code units. \<open>ascii\<close> embeds an ASCII
  literal of the source.
\<close>

type_synonym jsstring = "16 word list"

definition ascii :: "string \<Rightarrow> jsstring" where
  "ascii s = map of_char s"

text \<open>
  The fields of a parsed JSON request body: absent (\<open>undefined\<close>), \<open>null\<close>, a boolean,
  a number, a string, or an object or array. The handlers only observe the truthiness and
  the \<open>typeof\<close> of a number, so a number carries an integer.
\<close>

datatype jsvalue =
    JUndefined
  | JNull
  | JBoolean bool
  | JNumber int
  | JString jsstring
  | JObject

fun truthy :: "jsvalue \<Rightarrow> bool" where
  "truthy JUndefined = False"
| "truthy JNull = False"
| "truthy (JBoolean b) = b"
| "truthy (JNumber n) = (n \<noteq> 0)"
| "truthy (JString s) = (s \<noteq> [])"
| "truthy JObject = True"

fun typeof :: "jsvalue \<Rightarrow> string" where
  "typeof JUndefined = ''undefined''"
| "typeof JNull = ''object''"
| "typeof (JBoolean b) = ''boolean''"
| "typeof (JNumber n) = ''number''"
| "typeof (JString s) = ''string''"
| "typeof JObject = ''object''"

text \<open>
  The unchecked cast \<open>req.body as { name?: string; ... }\<close>: the handlers read the
  string only behind a \<open>typeof\<close> or \<open>includes\<close> test that a non-string fails.
\<close>

fun as_string :: "jsvalue \<Rightarrow> jsstring" where
  "as_string (JString s) = s"
| "as_string _ = []"

text \<open>
  \<open>Array.prototype.includes\<close> on an array of strings: the argument is compared by
  SameValueZero, which only a string with the same code units satisfies.
\<close>

definition Array_includes :: "jsstring list \<Rightarrow> jsvalue \<Rightarrow> bool" where
  "Array_includes xs v = (v \<in> set (map JString xs))"

text \<open>
  \<open>String.prototype.trim\<close> removes the WhiteSpace and LineTerminator code points of
  ECMAScript from both ends.
\<close>

definition js_whitespace :: "16 word \<Rightarrow> bool" where
  "js_whitespace c =
     (c \<in> {0x0009, 0x000A, 0x000B, 0x000C, 0x000D, 0x0020, 0x00A0, 0x1680,
            0x2028, 0x2029, 0x202F, 0x205F, 0x3000, 0xFEFF}
      \<or> (0x2000 \<le> c \<and> c \<le> 0x200A))"

definition trim :: "jsstring \<Rightarrow> jsstring" where
  "trim s = rev (dropWhile js_whitespace (rev (dropWhile js_whitespace s)))"

subsection \<open>Numbers\<close>

text \<open>
  A JavaScript number is an IEEE 754 double: not-a-number, an infinity, the negative
  zero, or a finite value, given as the rational number it is (\<open>Finite 0\<close> is the
  positive zero). The finite doubles are the multiples of \<open>2 ^ e\<close> by an integer below
  \<open>2 ^ 53\<close> in magnitude, for an exponent \<open>e\<close> from -1074 to 971.
\<close>

datatype jsnumber = NaN | PosInfinity | NegInfinity | NegZero | Finite rat

text \<open>
  Every arithmetic operation rounds its exact result to the nearest double, a tie to
  the one with the even significand: \<open>ilog2 q\<close> is the exponent of the power of two at
  or below a positive \<open>q\<close>, the doubles near \<open>q\<close> are the multiples of the quantum
  \<open>2 ^ (ilog2 q - 52)\<close> (of \<open>2 ^ -1074\<close> among the subnormal numbers), a result of
  \<open>2 ^ 1024\<close> or more is an infinity, and a result that rounds to zero keeps its sign.
\<close>

definition round_half_even :: "rat \<Rightarrow> int" where
  "round_half_even x =
     (let f = \<lfloor>x\<rfloor>; r = x - of_int f
      in if r < 1 / 2 then f else if 1 / 2 < r then f + 1 else if even f then f else f + 1)"

definition ilog2 :: "rat \<Rightarrow> int" where
  "ilog2 q = (if 1 \<le> q then bitlen \<lfloor>q\<rfloor> - 1 else - bitlen (\<lceil>1 / q\<rceil> - 1))"

definition round_double :: "rat \<Rightarrow> jsnumber" where
  "round_double q =
     (if q = 0 then Finite 0
      else
        (let quantum = 2 powi (max (ilog2 \<bar>q\<bar> - 52) (- 1074));
             n = round_half_even (q / quantum);
             r = of_int n * quantum
         in if 2 ^ 1024 \<le> \<bar>r\<bar> then (if 0 < q then PosInfinity else NegInfinity)
            else if n = 0 then (if q < 0 then NegZero else Finite 0)
            else Finite r))"

fun number_value :: "jsnumber \<Rightarrow> rat" where
  "number_value (Finite q) = q"
| "number_value _ = 0"

fun js_is_zero :: "jsnumber \<Rightarrow> bool" where
  "js_is_zero NegZero = True"
| "js_is_zero (Finite q) = (q = 0)"
| "js_is_zero _ = False"

fun js_negative :: "jsnumber \<Rightarrow> bool" where
  "js_negative NegInfinity = True"
| "js_negative NegZero = True"
| "js_negative (Finite q) = (q < 0)"
| "js_negative _ = False"

text \<open>The operator \<open>-\<close> on two numbers.\<close>

fun js_sub :: "jsnumber \<Rightarrow> jsnumber \<Rightarrow> jsnumber" where
  "js_sub NaN y = NaN"
| "js_sub x NaN = NaN"
| "js_sub PosInfinity PosInfinity = NaN"
| "js_sub NegInfinity NegInfinity = NaN"
| "js_sub PosInfinity y = PosInfinity"
| "js_sub NegInfinity y = NegInfinity"
| "js_sub x PosInfinity = NegInfinity"
| "js_sub x NegInfinity = PosInfinity"
| "js_sub NegZero NegZero = Finite 0"
| "js_sub NegZero (Finite b) = (if b = 0 then NegZero else round_double (- b))"
| "js_sub (Finite a) NegZero = Finite a"
| "js_sub (Finite a) (Finite b) = round_double (a - b)"

text \<open>The operator \<open>*\<close> on two numbers; the last equation is for an infinite factor.\<close>

fun js_mul :: "jsnumber \<Rightarrow> jsnumber \<Rightarrow> jsnumber" where
  "js_mul NaN y = NaN"
| "js_mul x NaN = NaN"
| "js_mul NegZero NegZero = Finite 0"
| "js_mul NegZero (Finite b) = (if b < 0 then Finite 0 else NegZero)"
| "js_mul (Finite a) NegZero = (if a < 0 then Finite 0 else NegZero)"
| "js_mul (Finite a) (Finite b) =
     (if a * b = 0 then (if (a < 0) \<noteq> (b < 0) then NegZero else Finite 0)
      else round_double (a * b))"
| "js_mul x y =
     (if js_is_zero x \<or> js_is_zero y then NaN
      else if js_negative x \<noteq> js_negative y then NegInfinity else PosInfinity)"

text \<open>
  The comparison \<open><\<close>, false whenever an operand is not a number, and \<open><=\<close>; the two
  zeros are equal.
\<close>

fun js_lt :: "jsnumber \<Rightarrow> jsnumber \<Rightarrow> bool" where
  "js_lt NaN y = False"
| "js_lt x NaN = False"
| "js_lt PosInfinity y = False"
| "js_lt x PosInfinity = True"
| "js_lt x NegInfinity = False"
| "js_lt NegInfinity y = True"
| "js_lt x y = (number_value x < number_value y)"


text \<open>
  \<open>Math.max\<close> of two numbers: not a number when either is, else the larger, the
  positive zero being larger than the negative. \<open>Math.floor\<close>.
\<close>

definition Math_max :: "jsnumber \<Rightarrow> jsnumber \<Rightarrow> jsnumber" where
  "Math_max a b =
     (if a = NaN \<or> b = NaN then NaN
      else if js_lt a b then b
      else if js_lt b a then a
      else if a = NegZero then b else a)"

fun Math_floor :: "jsnumber \<Rightarrow> jsnumber" where
  "Math_floor (Finite q) = Finite (of_int \<lfloor>q\<rfloor>)"
| "Math_floor x = x"

subsection \<open>\<open>Map\<close> and \<open>Set\<close>\<close>

text \<open>
  A JavaScript \<open>Map\<close> iterates in insertion order: \<open>set\<close> on a present key replaces the
  value where it stands, on a new key it appends. \<open>delete\<close> receives whatever the caller
  passes; only a string equal to a key removes an entry.
\<close>

type_synonym 'v jsmap = "(jsstring \<times> 'v) list"

fun Map_set :: "jsstring \<Rightarrow> 'v \<Rightarrow> 'v jsmap \<Rightarrow> 'v jsmap" where
  "Map_set k v [] = [(k, v)]"
| "Map_set k v ((k', v') # m) =
     (if k' = k then (k, v) # m else (k', v') # Map_set k v m)"

definition Map_delete :: "jsvalue \<Rightarrow> 'v jsmap \<Rightarrow> 'v jsmap" where
  "Map_delete key m = filter (\<lambda>(k, v). JString k \<noteq> key) m"

definition Map_keys :: "'v jsmap \<Rightarrow> jsstring list" where
  "Map_keys m = map fst m"

definition Map_values :: "'v jsmap \<Rightarrow> 'v list" where
  "Map_values m = map snd m"

definition Map_size :: "'v jsmap \<Rightarrow> nat" where
  "Map_size m = length m"

text \<open>A \<open>Set\<close> of objects, in insertion order; an object is its identity.\<close>

definition Set_add :: "'a \<Rightarrow> 'a list \<Rightarrow> 'a list" where
  "Set_add x xs = (if x \<in> set xs then xs else xs @ [x])"

definition Set_delete :: "'a \<Rightarrow> 'a list \<Rightarrow> 'a list" where
  "Set_delete x xs = filter (\<lambda>y. y \<noteq> x) xs"

subsection \<open>Domain (DTOs)\<close>

text \<open>
  \<open>ChannelType\<close> and the event type are unions of string literals; at run time they are
  strings, and the factory's \<open>default\<close> branch is what a string outside the union reaches.
\<close>

type_synonym ChannelType = jsstring

record DomainEvent =
  event_id :: jsstring
  event_title :: jsstring
  event_type :: jsstring
  createdAt :: jsnumber

record NotificationMessage =
  message_id :: jsstring
  userId :: jsstring
  userName :: jsstring
  message_channel :: ChannelType
  eventId :: jsstring
  eventTitle :: jsstring
  eventType :: jsstring
  sentAt :: jsnumber
  latencyMs :: jsnumber
  rendered :: jsstring

record Subscriber =
  subscriber_id :: jsstring
  subscriber_name :: jsstring
  subscriber_channel :: ChannelType

datatype Error = Error jsstring

subsection \<open>Strategy and factory\<close>

datatype NotificationStrategy = EmailStrategy | SmsStrategy | PushStrategy

text \<open>The three template literals; each icon is one surrogate pair.\<close>

definition evento :: "DomainEvent \<Rightarrow> jsstring" where
  "evento event =
     ascii '': Evento '' @ [0x22] @ event_title event @ [0x22] @ ascii '' (''
       @ event_type event @ ascii '')''"

fun send :: "NotificationStrategy \<Rightarrow> jsstring \<Rightarrow> DomainEvent \<Rightarrow> jsstring" where
  "send EmailStrategy uname event =
     [0xD83D, 0xDCE7] @ ascii '' Email a '' @ uname @ evento event"
| "send SmsStrategy uname event =
     [0xD83D, 0xDCF1] @ ascii '' SMS a '' @ uname @ evento event"
| "send PushStrategy uname event =
     [0xD83D, 0xDD14] @ ascii '' Push a '' @ uname @ evento event"

definition NotificationFactory_create :: "ChannelType \<Rightarrow> Error + NotificationStrategy" where
  "NotificationFactory_create channel =
     (if channel = ascii ''email'' then Inr EmailStrategy
      else if channel = ascii ''sms'' then Inr SmsStrategy
      else if channel = ascii ''push'' then Inr PushStrategy
      else Inl (Error (ascii ''Canal no soportado: '' @ channel)))"

subsection \<open>The state\<close>

text \<open>
  An \<open>Observer\<close> is an object with an \<open>update\<close> method; \<open>UserSubscriber\<close> is the only
  class that implements it. A streaming client is an Express response object, known by
  its identity. A pending timer holds its delay and its callback; the only callback
  the program registers is \<open>() => deliver(m)\<close> with \<open>deliver = (m) => this.broadcast(m)\<close>.
\<close>

datatype Observer = UserSubscriber Subscriber

type_synonym Response = nat

datatype Callback = Deliver NotificationMessage

record Timer =
  delay :: jsnumber
  callback :: Callback

datatype SseChunk =
    HelloEvent
  | HelloData
  | NotificationEvent
  | NotificationData NotificationMessage

text \<open>
  \<open>observers\<close> is the field of the \<open>EventBus\<close>; \<open>subscribers\<close> and \<open>sseClients\<close> are
  the fields of the facade. \<open>timers\<close> are the callbacks registered with \<open>setTimeout\<close>
  that have not run yet, \<open>written\<close> is everything passed to \<open>write\<close> of a response, in
  order. \<open>crypto.randomUUID\<close>, \<open>Date.now\<close> and \<open>Math.random\<close> belong to the runtime:
  each is the sequence of the results of its successive calls, with the number of calls
  made so far. A reading of the clock is a time value, an integral number of
  milliseconds (of magnitude at most 8.64 * 10^15, so a double); a random number is a
  double from 0 up to but not including 1, given as its value.
\<close>

record state =
  observers :: "Observer jsmap"
  subscribers :: "Subscriber jsmap"
  sseClients :: "Response list"
  timers :: "Timer list"
  written :: "(Response \<times> SseChunk) list"
  uuids :: "nat \<Rightarrow> jsstring"
  uuid_calls :: nat
  clock :: "nat \<Rightarrow> int"
  clock_calls :: nat
  randoms :: "nat \<Rightarrow> rat"
  random_calls :: nat

definition initial :: "(nat \<Rightarrow> jsstring) \<Rightarrow> (nat \<Rightarrow> int) \<Rightarrow> (nat \<Rightarrow> rat) \<Rightarrow> state" where
  "initial u c r =
     \<lparr>observers = [], subscribers = [], sseClients = [], timers = [], written = [],
      uuids = u, uuid_calls = 0, clock = c, clock_calls = 0, randoms = r, random_calls = 0\<rparr>"

definition cryptoRandomId :: "state \<Rightarrow> jsstring \<times> state" where
  "cryptoRandomId st = (uuids st (uuid_calls st), st\<lparr>uuid_calls := Suc (uuid_calls st)\<rparr>)"

definition Date_now :: "state \<Rightarrow> jsnumber \<times> state" where
  "Date_now st = (Finite (of_int (clock st (clock_calls st))), st\<lparr>clock_calls := Suc (clock_calls st)\<rparr>)"

definition Math_random :: "state \<Rightarrow> jsnumber \<times> state" where
  "Math_random st = (Finite (randoms st (random_calls st)), st\<lparr>random_calls := Suc (random_calls st)\<rparr>)"

definition setTimeout :: "Callback \<Rightarrow> jsnumber \<Rightarrow> state \<Rightarrow> state" where
  "setTimeout cb ms st = st\<lparr>timers := timers st @ [\<lparr>delay = ms, callback = cb\<rparr>]\<rparr>"

definition res_write :: "Response \<Rightarrow> SseChunk \<Rightarrow> state \<Rightarrow> state" where
  "res_write res chunk st = st\<lparr>written := written st @ [(res, chunk)]\<rparr>"

subsection \<open>Observer and event bus\<close>

fun update :: "Observer \<Rightarrow> DomainEvent \<Rightarrow> state \<Rightarrow> (Error + NotificationMessage) \<times> state" where
  "update (UserSubscriber subscriber) event st =
     (case NotificationFactory_create (subscriber_channel subscriber) of
        Inl e \<Rightarrow> (Inl e, st)
      | Inr strategy \<Rightarrow>
          (let (now, st1) = Date_now st;
               text = send strategy (subscriber_name subscriber) event;
               (uuid, st2) = cryptoRandomId st1
           in (Inr \<lparr>message_id = uuid,
                    userId = subscriber_id subscriber,
                    userName = subscriber_name subscriber,
                    message_channel = subscriber_channel subscriber,
                    eventId = event_id event,
                    eventTitle = event_title event,
                    eventType = event_type event,
                    sentAt = now,
                    latencyMs = Math_max (Finite 0) (js_sub now (createdAt event)),
                    rendered = text\<rparr>, st2)))"

definition EventBus_subscribe :: "jsstring \<Rightarrow> Observer \<Rightarrow> state \<Rightarrow> state" where
  "EventBus_subscribe i observer st = st\<lparr>observers := Map_set i observer (observers st)\<rparr>"

definition EventBus_unsubscribe :: "jsvalue \<Rightarrow> state \<Rightarrow> state" where
  "EventBus_unsubscribe i st = st\<lparr>observers := Map_delete i (observers st)\<rparr>"

text \<open>
  The loop of \<open>notifyAll\<close> over \<open>observers.values()\<close>; an exception of \<open>update\<close> leaves
  the loop and the method.
\<close>

fun notifyAll_loop ::
  "Observer list \<Rightarrow> DomainEvent \<Rightarrow> NotificationMessage list \<Rightarrow> state
     \<Rightarrow> (Error + NotificationMessage list) \<times> state" where
  "notifyAll_loop [] event out st = (Inr out, st)"
| "notifyAll_loop (obs # rest) event out st =
     (case update obs event st of
        (Inl e, st') \<Rightarrow> (Inl e, st')
      | (Inr m, st') \<Rightarrow> notifyAll_loop rest event (out @ [m]) st')"

definition notifyAll :: "DomainEvent \<Rightarrow> state \<Rightarrow> (Error + NotificationMessage list) \<times> state" where
  "notifyAll event st = notifyAll_loop (Map_values (observers st)) event [] st"

definition count :: "state \<Rightarrow> nat" where
  "count st = Map_size (observers st)"

subsection \<open>Dispatcher\<close>

fun dispatch :: "NotificationMessage list \<Rightarrow> state \<Rightarrow> state" where
  "dispatch [] st = st"
| "dispatch (m # ms) st =
     (let (r, st1) = Math_random st;
          jitter = Math_floor (js_mul r (Finite 120))
      in dispatch ms (setTimeout (Deliver m) jitter st1))"

subsection \<open>Facade\<close>

definition addSseClient :: "Response \<Rightarrow> state \<Rightarrow> state" where
  "addSseClient res st = st\<lparr>sseClients := Set_add res (sseClients st)\<rparr>"

definition removeSseClient :: "Response \<Rightarrow> state \<Rightarrow> state" where
  "removeSseClient res st = st\<lparr>sseClients := Set_delete res (sseClients st)\<rparr>"

text \<open>
  \<open>broadcast\<close> writes two chunks to every client of the set; the second stands for
  \<open>data:\<close> followed by the JSON text of the message.
\<close>

fun broadcast_loop :: "Response list \<Rightarrow> NotificationMessage \<Rightarrow> state \<Rightarrow> state" where
  "broadcast_loop [] msg st = st"
| "broadcast_loop (client # rest) msg st =
     broadcast_loop rest msg (res_write client (NotificationData msg) (res_write client NotificationEvent st))"

definition broadcast :: "NotificationMessage \<Rightarrow> state \<Rightarrow> state" where
  "broadcast msg st = broadcast_loop (sseClients st) msg st"

definition subscribeUser :: "jsstring \<Rightarrow> ChannelType \<Rightarrow> state \<Rightarrow> Subscriber \<times> state" where
  "subscribeUser name channel st =
     (let (uuid, st1) = cryptoRandomId st;
          sub = \<lparr>subscriber_id = uuid, subscriber_name = name, subscriber_channel = channel\<rparr>;
          st2 = st1\<lparr>subscribers := Map_set (subscriber_id sub) sub (subscribers st1)\<rparr>;
          st3 = EventBus_subscribe (subscriber_id sub) (UserSubscriber sub) st2
      in (sub, st3))"

definition unsubscribeUser :: "jsvalue \<Rightarrow> state \<Rightarrow> state" where
  "unsubscribeUser i st =
     EventBus_unsubscribe i (st\<lparr>subscribers := Map_delete i (subscribers st)\<rparr>)"

definition listSubscribers :: "state \<Rightarrow> Subscriber list" where
  "listSubscribers st = Map_values (subscribers st)"

definition publishEvent :: "jsstring \<Rightarrow> jsstring \<Rightarrow> state \<Rightarrow> (Error + DomainEvent) \<times> state" where
  "publishEvent title type st =
     (let (uuid, st1) = cryptoRandomId st;
          (now, st2) = Date_now st1;
          event = \<lparr>event_id = uuid, event_title = title, event_type = type, createdAt = now\<rparr>
      in case notifyAll event st2 of
           (Inl e, st3) \<Rightarrow> (Inl e, st3)
         | (Inr messages, st3) \<Rightarrow> (Inr event, dispatch messages st3))"

definition subscriberCount :: "state \<Rightarrow> nat" where
  "subscriberCount st = count st"

subsection \<open>Web server\<close>

text \<open>
  What a handler answers: \<open>res.status(400).json({ error })\<close>, one of the four success
  bodies, the open event stream, or the 500 of Express when the handler throws.
  \<open>Closed\<close> is the end of a stream whose client went away (\<open>res.end()\<close>), and
  \<open>TimerDone\<close> the return of a timer callback, which answers nobody.
\<close>

datatype Reply =
    BadRequest jsstring
  | SubscribeOk Subscriber nat
  | UnsubscribeOk nat
  | SubscribersOk "Subscriber list" nat
  | PublishOk DomainEvent nat
  | EventStream
  | Closed
  | ServerError Error
  | TimerDone

definition get_events :: "Response \<Rightarrow> state \<Rightarrow> Reply \<times> state" where
  "get_events res st = (EventStream, addSseClient res (res_write res HelloData (res_write res HelloEvent st)))"

definition on_close :: "Response \<Rightarrow> state \<Rightarrow> Reply \<times> state" where
  "on_close res st = (Closed, removeSseClient res st)"

definition post_subscribe :: "jsvalue \<Rightarrow> jsvalue \<Rightarrow> state \<Rightarrow> Reply \<times> state" where
  "post_subscribe name channel st =
     (if \<not> truthy name \<or> typeof name \<noteq> ''string'' then
        (BadRequest (ascii ''name es requerido''), st)
      else if \<not> truthy channel \<or> \<not> Array_includes [ascii ''email'', ascii ''sms'', ascii ''push''] channel then
        (BadRequest (ascii ''channel inv'' @ [0xE1] @ ascii ''lido (email|sms|push)''), st)
      else
        (let (sub, st1) = subscribeUser (trim (as_string name)) (as_string channel) st
         in (SubscribeOk sub (subscriberCount st1), st1)))"

definition post_unsubscribe :: "jsvalue \<Rightarrow> state \<Rightarrow> Reply \<times> state" where
  "post_unsubscribe i st =
     (if \<not> truthy i then (BadRequest (ascii ''id es requerido''), st)
      else
        (let st1 = unsubscribeUser i st
         in (UnsubscribeOk (subscriberCount st1), st1)))"

definition get_subscribers :: "state \<Rightarrow> Reply \<times> state" where
  "get_subscribers st = (SubscribersOk (listSubscribers st) (subscriberCount st), st)"

definition post_publish :: "jsvalue \<Rightarrow> jsvalue \<Rightarrow> state \<Rightarrow> Reply \<times> state" where
  "post_publish title type st =
     (if \<not> truthy title \<or> typeof title \<noteq> ''string'' then
        (BadRequest (ascii ''title es requerido''), st)
      else if \<not> truthy type
              \<or> \<not> Array_includes [ascii ''CREATED'', ascii ''UPDATED'', ascii ''CANCELLED''] type then
        (BadRequest (ascii ''type inv'' @ [0xE1] @ ascii ''lido (CREATED|UPDATED|CANCELLED)''), st)
      else
        (case publishEvent (trim (as_string title)) (as_string type) st of
           (Inl e, st1) \<Rightarrow> (ServerError e, st1)
         | (Inr event, st1) \<Rightarrow> (PublishOk event (subscriberCount st1), st1)))"

text \<open>
  The event loop runs a pending timer: the callback is taken off the list and called.
  Node picks the timer that is due first; the model lets any pending timer run, which
  covers every order of the jitters.
\<close>

definition run_timer :: "nat \<Rightarrow> state \<Rightarrow> Reply \<times> state" where
  "run_timer k st =
     (if k < length (timers st) then
        (case callback (timers st ! k) of
           Deliver m \<Rightarrow>
             (TimerDone, broadcast m (st\<lparr>timers := take k (timers st) @ drop (Suc k) (timers st)\<rparr>)))
      else (TimerDone, st))"

text \<open>What can happen to the server, and a run of such happenings.\<close>

datatype Request =
    PostSubscribe jsvalue jsvalue
  | PostUnsubscribe jsvalue
  | GetSubscribers
  | PostPublish jsvalue jsvalue
  | GetEvents Response
  | Close Response
  | TimerFires nat

fun step :: "Request \<Rightarrow> state \<Rightarrow> Reply \<times> state" where
  "step (PostSubscribe name channel) st = post_subscribe name channel st"
| "step (PostUnsubscribe i) st = post_unsubscribe i st"
| "step GetSubscribers st = get_subscribers st"
| "step (PostPublish title type) st = post_publish title type st"
| "step (GetEvents res) st = get_events res st"
| "step (Close res) st = on_close res st"
| "step (TimerFires k) st = run_timer k st"

fun run :: "Request list \<Rightarrow> state \<Rightarrow> state" where
  "run [] st = st"
| "run (r # rs) st = run rs (snd (step r st))"

subsection \<open>Predicates of the statements\<close>

text \<open>The private field \<open>subscriber\<close> of a \<open>UserSubscriber\<close>.\<close>

fun observer_subscriber :: "Observer \<Rightarrow> Subscriber" where
  "observer_subscriber (UserSubscriber subscriber) = subscriber"

text \<open>A listener renders when its channel is one of the three cases of the factory.\<close>

definition renders :: "Observer \<Rightarrow> bool" where
  "renders obs =
     (subscriber_channel (observer_subscriber obs) \<in> {ascii ''email'', ascii ''sms'', ascii ''push''})"

text \<open>
  The registry and the bus hold the same ids, each id once. (A \<open>Map\<close> never holds a
  key twice; for the lists of the model this is part of the invariant.)
\<close>

definition registry_consistent :: "state \<Rightarrow> bool" where
  "registry_consistent st =
     (set (Map_keys (observers st)) = set (Map_keys (subscribers st))
      \<and> distinct (Map_keys (observers st)) \<and> distinct (Map_keys (subscribers st)))"

text \<open>Every listener of the bus renders and stands under the id of its subscriber.\<close>

definition listeners_valid :: "state \<Rightarrow> bool" where
  "listeners_valid st =
     (\<forall>(k, obs) \<in> set (observers st). renders obs \<and> subscriber_id (observer_subscriber obs) = k)"

text \<open>
  A run of requests in which every subscribe that succeeds receives an id that is not
  registered at that moment, and every unsubscribe that succeeds names a subscriber
  that an earlier subscribe of the run created and that no unsubscribe of the run has
  named since. \<open>live\<close> holds the ids of those subscribers. The two counters count the
  subscribes and the unsubscribes of a run that succeed.
\<close>

fun churn :: "jsstring list \<Rightarrow> Request list \<Rightarrow> state \<Rightarrow> bool" where
  "churn live [] st = True"
| "churn live (PostSubscribe name channel # rs) st =
     (case post_subscribe name channel st of
        (SubscribeOk sub n, st') \<Rightarrow>
          subscriber_id sub \<notin> set (Map_keys (observers st)) \<and> churn (subscriber_id sub # live) rs st'
      | (reply, st') \<Rightarrow> churn live rs st')"
| "churn live (PostUnsubscribe i # rs) st =
     (case post_unsubscribe i st of
        (UnsubscribeOk n, st') \<Rightarrow>
          i \<in> JString ` set live \<and> churn (removeAll (as_string i) live) rs st'
      | (reply, st') \<Rightarrow> churn live rs st')"
| "churn live (r # rs) st = churn live rs (snd (step r st))"

fun successful_subscribes :: "Request list \<Rightarrow> state \<Rightarrow> nat" where
  "successful_subscribes [] st = 0"
| "successful_subscribes (r # rs) st =
     (case step r st of
        (SubscribeOk sub n, st') \<Rightarrow> Suc (successful_subscribes rs st')
      | (reply, st') \<Rightarrow> successful_subscribes rs st')"

fun successful_unsubscribes :: "Request list \<Rightarrow> state \<Rightarrow> nat" where
  "successful_unsubscribes [] st = 0"
| "successful_unsubscribes (r # rs) st =
     (case step r st of
        (UnsubscribeOk n, st') \<Rightarrow> Suc (successful_unsubscribes rs st')
      | (reply, st') \<Rightarrow> successful_unsubscribes rs st')"

subsection \<open>Sample inputs\<close>

text \<open>
  A runtime whose UUIDs are pairwise different, whose clock advances by a millisecond at
  every reading and whose random numbers are all one half; a subscriber; an event created
  in the future of that clock.
\<close>

definition example_uuids :: "nat \<Rightarrow> jsstring" where
  "example_uuids n = ascii ''uuid-'' @ [of_nat n]"

definition example_state :: state where
  "example_state = initial example_uuids (\<lambda>n. 1000 + int n) (\<lambda>n. 1 / 2)"


definition future_event :: DomainEvent where
  "future_event = \<lparr>event_id = ascii ''e'', event_title = ascii ''X'',
                    event_type = ascii ''CREATED'', createdAt = Finite 5000\<rparr>"




text \<open>The server after two accepted subscribe requests.\<close>

definition two_subscribers :: state where
  "two_subscribers =
     run [PostSubscribe (JString (ascii ''Ana'')) (JString (ascii ''email'')),
          PostSubscribe (JString (ascii '' Bo '')) (JString (ascii ''sms''))] example_state"

text \<open>
  A facade on which \<open>subscribeUser\<close> was called with a channel outside the union,
  between two calls with a channel inside it. The type checker rejects such a call and
  the subscribe handler never makes one; it is the only way to a listener whose build
  step throws.
\<close>

definition one_bad_channel :: state where
  "one_bad_channel =
     snd (subscribeUser (ascii ''Cy'') (ascii ''sms'')
       (snd (subscribeUser (ascii ''Fay'') (ascii ''fax'')
         (snd (subscribeUser (ascii ''Ana'') (ascii ''email'') example_state)))))"

text \<open>Two clients connect, one user subscribes, one event is published.\<close>

definition pending_delivery :: state where
  "pending_delivery =
     run [GetEvents 7, GetEvents 8,
          PostSubscribe (JString (ascii ''Ana'')) (JString (ascii ''email'')),
          PostPublish (JString (ascii ''X'')) (JString (ascii ''CREATED''))] example_state"

text \<open>Three subscribe requests, the second one rejected; the first new subscriber leaves.\<close>

definition churn_requests :: "Request list" where
  "churn_requests =
     [PostSubscribe (JString (ascii ''Cy'')) (JString (ascii ''push'')),
      PostSubscribe (JString (ascii ''Di'')) (JString (ascii ''fax'')),
      PostSubscribe (JString (ascii ''Ed'')) (JString (ascii ''email'')),
      PostUnsubscribe (JString (example_uuids 2)),
      GetSubscribers]"

section \<open>Properties\<close>

subsection \<open>Numbers\<close>

lemma round_half_even_int: "round_half_even (of_int k) = k"
  by (simp add: round_half_even_def)


text \<open>An integer below \<open>2 ^ 53\<close> in magnitude is a double: rounding keeps it.\<close>

lemma round_double_int:
  assumes "\<bar>i\<bar> < 2 ^ 53"
  shows "round_double (of_int i) = Finite (of_int i)"
proof (cases "i = 0")
  case True
  then show ?thesis by (simp add: round_double_def)
next
  case False
  let ?q = "of_int i :: rat"
  have abs: "\<bar>?q\<bar> = of_int \<bar>i\<bar>" by simp
  have "1 \<le> \<bar>?q\<bar>" using False unfolding abs by (simp add: int_one_le_iff_zero_less)
  moreover have "\<lfloor>\<bar>?q\<bar>\<rfloor> = \<bar>i\<bar>"
    by (metis abs floor_of_int)
  ultimately have e: "ilog2 \<bar>?q\<bar> = bitlen \<bar>i\<bar> - 1"
    by (simp add: ilog2_def)
  have "bitlen \<bar>i\<bar> \<le> 53"
    using assms by (simp add: bitlen_le_iff_power)
  with e have x: "max (ilog2 \<bar>?q\<bar> - 52) (- 1074) \<le> 0" by simp
  define j where "j = nat (- max (ilog2 \<bar>?q\<bar> - 52) (- 1074))"
  have xj: "max (ilog2 \<bar>?q\<bar> - 52) (- 1074) = - int j" using x by (simp add: j_def)
  have quantum: "(2::rat) powi (max (ilog2 \<bar>?q\<bar> - 52) (- 1074)) = 1 / 2 ^ j"
    unfolding xj by (simp add: power_int_minus_divide)
  have div: "?q / (1 / 2 ^ j) = of_int (i * 2 ^ j)" by simp
  have n: "round_half_even (?q / (1 / 2 ^ j)) = i * 2 ^ j"
    unfolding div by (rule round_half_even_int)
  have r: "of_int (i * 2 ^ j) * (1 / 2 ^ j) = ?q" by simp
  have small: "\<not> (2 ^ 1024 \<le> \<bar>?q\<bar>)"
  proof -
    have "\<bar>i\<bar> < 2 ^ 1024" using assms by (rule less_trans) simp
    then have "of_int \<bar>i\<bar> < (2 ^ 1024 :: rat)"
      by (metis of_int_less_iff of_int_numeral of_int_power)
    then show ?thesis unfolding abs by simp
  qed
  show ?thesis
    unfolding round_double_def Let_def quantum n r using False small by simp
qed






text \<open>Roundings that the sample inputs need.\<close>

lemma round_double_samples:
  "round_double 1 = Finite 1" "round_double 2 = Finite 2" "round_double 60 = Finite 60"
  "round_double 400 = Finite 400" "round_double (- 4000) = Finite (- 4000)"
  using round_double_int [of 1] round_double_int [of 2] round_double_int [of 60]
    round_double_int [of 400] round_double_int [of "- 4000"]
  by simp_all


text \<open>
  The product of the jitter is rounded before \<open>Math.floor\<close>: a random number just
  below \<open>64 / 120\<close> gives the delay 64.
\<close>

lemma jitter_rounds_up:
  "Math_floor (js_mul (Finite (576460752303423480 / 120 / 9007199254740992)) (Finite 120))
     = Finite 64"
proof -
  have q: "(576460752303423480 / 120 / 9007199254740992 :: rat) * 120
      = 72057594037927935 / 1125899906842624"
    by simp
  have f1: "\<lfloor>72057594037927935 / 1125899906842624 :: rat\<rfloor> = 63"
    by (simp add: floor_eq_iff)
  have f2: "\<lfloor>72057594037927935 / 8 :: rat\<rfloor> = 9007199254740991"
    by (simp add: floor_eq_iff)
  show ?thesis
    by (simp add: q f1 f2 round_double_def ilog2_def round_half_even_def compute_bitlen Let_def)
qed

subsection \<open>The notification builder\<close>

lemma create_Inr_iff:
  "(\<exists>s. NotificationFactory_create c = Inr s)
     \<longleftrightarrow> c \<in> {ascii ''email'', ascii ''sms'', ascii ''push''}"
  by (auto simp: NotificationFactory_create_def)

lemma update_frame:
  assumes "update obs event st = (r, st')"
  shows "observers st' = observers st \<and> subscribers st' = subscribers st
       \<and> sseClients st' = sseClients st \<and> timers st' = timers st \<and> written st' = written st
       \<and> uuids st' = uuids st \<and> clock st' = clock st \<and> randoms st' = randoms st
       \<and> random_calls st' = random_calls st"
  using assms
  by (cases obs) (auto simp: Date_now_def cryptoRandomId_def split: sum.splits)

lemma update_Inr:
  assumes "NotificationFactory_create (subscriber_channel sub) = Inr strategy"
  shows "update (UserSubscriber sub) event st =
     (Inr \<lparr>message_id = uuids st (uuid_calls st),
           userId = subscriber_id sub,
           userName = subscriber_name sub,
           message_channel = subscriber_channel sub,
           eventId = event_id event,
           eventTitle = event_title event,
           eventType = event_type event,
           sentAt = Finite (of_int (clock st (clock_calls st))),
           latencyMs = Math_max (Finite 0)
             (js_sub (Finite (of_int (clock st (clock_calls st)))) (createdAt event)),
           rendered = send strategy (subscriber_name sub) event\<rparr>,
      st\<lparr>clock_calls := Suc (clock_calls st), uuid_calls := Suc (uuid_calls st)\<rparr>)"
  using assms by (simp add: Date_now_def cryptoRandomId_def)

lemma update_Inl:
  assumes "NotificationFactory_create (subscriber_channel sub) = Inl e"
  shows "update (UserSubscriber sub) event st = (Inl e, st)"
  using assms by simp

declare update.simps [simp del]

lemma update_renders:
  assumes "renders obs"
  shows "\<exists>m. update obs event st =
          (Inr m, st\<lparr>clock_calls := Suc (clock_calls st), uuid_calls := Suc (uuid_calls st)\<rparr>)
     \<and> userId m = subscriber_id (observer_subscriber obs)
     \<and> userName m = subscriber_name (observer_subscriber obs)
     \<and> message_channel m = subscriber_channel (observer_subscriber obs)
     \<and> eventId m = event_id event \<and> eventTitle m = event_title event
     \<and> eventType m = event_type event"
proof (cases obs)
  case (UserSubscriber sub)
  with assms have "\<exists>s. NotificationFactory_create (subscriber_channel sub) = Inr s"
    unfolding create_Inr_iff by (simp add: renders_def)
  then obtain s where "NotificationFactory_create (subscriber_channel sub) = Inr s" ..
  then show ?thesis using UserSubscriber by (simp add: update_Inr)
qed

lemma update_unsupported:
  assumes "\<not> renders obs"
  shows "update obs event st =
     (Inl (Error (ascii ''Canal no soportado: '' @ subscriber_channel (observer_subscriber obs))), st)"
proof (cases obs)
  case (UserSubscriber sub)
  with assms have "NotificationFactory_create (subscriber_channel sub)
      = Inl (Error (ascii ''Canal no soportado: '' @ subscriber_channel sub))"
    by (auto simp: renders_def NotificationFactory_create_def)
  then show ?thesis using UserSubscriber by (simp add: update_Inl)
qed

subsection \<open>\<open>Map\<close> operations\<close>

lemma Map_keys_Map_set:
  "set (Map_keys (Map_set k v m)) = insert k (set (Map_keys m))"
  by (induction m) (force simp: Map_keys_def split: if_splits)+

lemma distinct_Map_set:
  "distinct (Map_keys m) \<Longrightarrow> distinct (Map_keys (Map_set k v m))"
proof (induction m)
  case Nil
  then show ?case by (simp add: Map_keys_def)
next
  case (Cons p m)
  have "set (map fst (Map_set k v m)) = insert k (set (map fst m))"
    using Map_keys_Map_set [of k v m] by (simp add: Map_keys_def)
  with Cons show ?case by (cases p) (auto simp: Map_keys_def)
qed

lemma Map_set_fresh:
  "k \<notin> set (Map_keys m) \<Longrightarrow> Map_set k v m = m @ [(k, v)]"
  by (induction m) (auto simp: Map_keys_def)

lemma set_Map_set: "set (Map_set k v m) \<subseteq> insert (k, v) (set m)"
  by (induction m) (auto split: if_splits)

lemma Map_set_holds: "(k, v) \<in> set (Map_set k v m)"
  by (induction m) auto

lemma Map_keys_Map_delete:
  "Map_keys (Map_delete i m) = filter (\<lambda>k. JString k \<noteq> i) (Map_keys m)"
  by (induction m) (auto simp: Map_keys_def Map_delete_def)

lemma Map_delete_absent:
  "i \<notin> JString ` set (Map_keys m) \<Longrightarrow> Map_delete i m = m"
  by (induction m) (auto simp: Map_keys_def Map_delete_def)

lemma set_Map_delete: "set (Map_delete i m) \<subseteq> set m"
  by (simp add: Map_delete_def)

lemma length_Map_delete_present:
  "distinct (Map_keys m) \<Longrightarrow> k \<in> set (Map_keys m)
     \<Longrightarrow> Suc (length (Map_delete (JString k) m)) = length m"
proof (induction m)
  case Nil
  then show ?case by (simp add: Map_keys_def)
next
  case (Cons p m)
  show ?case
  proof (cases "fst p = k")
    case True
    with Cons.prems have "k \<notin> set (Map_keys m)" by (simp add: Map_keys_def)
    then have "JString k \<notin> JString ` set (Map_keys m)" by auto
    from Map_delete_absent [OF this] True show ?thesis
      by (cases p) (simp add: Map_delete_def)
  next
    case False
    with Cons.prems have "distinct (Map_keys m)" "k \<in> set (Map_keys m)"
      by (auto simp: Map_keys_def)
    from Cons.IH [OF this] False show ?thesis
      by (cases p) (simp add: Map_delete_def)
  qed
qed

subsection \<open>What each method changes\<close>

lemma count_eq: "count st = length (observers st)"
  by (simp add: count_def Map_size_def)

lemma subscribeUser_fields:
  "subscribeUser name channel st =
     (\<lparr>subscriber_id = uuids st (uuid_calls st), subscriber_name = name,
        subscriber_channel = channel\<rparr>,
      st\<lparr>uuid_calls := Suc (uuid_calls st),
         subscribers := Map_set (uuids st (uuid_calls st))
            \<lparr>subscriber_id = uuids st (uuid_calls st), subscriber_name = name,
              subscriber_channel = channel\<rparr>
            (subscribers st),
         observers := Map_set (uuids st (uuid_calls st))
            (UserSubscriber \<lparr>subscriber_id = uuids st (uuid_calls st), subscriber_name = name,
                subscriber_channel = channel\<rparr>)
            (observers st)\<rparr>)"
  by (simp add: subscribeUser_def cryptoRandomId_def EventBus_subscribe_def Let_def)

lemma unsubscribeUser_fields:
  "unsubscribeUser i st =
     st\<lparr>subscribers := Map_delete i (subscribers st), observers := Map_delete i (observers st)\<rparr>"
  by (simp add: unsubscribeUser_def EventBus_unsubscribe_def)

lemma broadcast_loop_frame:
  "observers (broadcast_loop cs m st) = observers st
   \<and> subscribers (broadcast_loop cs m st) = subscribers st
   \<and> sseClients (broadcast_loop cs m st) = sseClients st
   \<and> timers (broadcast_loop cs m st) = timers st
   \<and> uuids (broadcast_loop cs m st) = uuids st
   \<and> uuid_calls (broadcast_loop cs m st) = uuid_calls st"
  by (induction cs arbitrary: st) (simp_all add: res_write_def)

lemma broadcast_loop_written:
  "written (broadcast_loop cs m st) =
     written st @ concat (map (\<lambda>c. [(c, NotificationEvent), (c, NotificationData m)]) cs)"
  by (induction cs arbitrary: st) (simp_all add: res_write_def)

lemma run_timer_frame:
  "observers (snd (run_timer k st)) = observers st
   \<and> subscribers (snd (run_timer k st)) = subscribers st
   \<and> sseClients (snd (run_timer k st)) = sseClients st"
  by (simp add: run_timer_def broadcast_def broadcast_loop_frame split: Callback.splits)

lemma run_timer_written:
  assumes "k < length (timers st)" and "callback (timers st ! k) = Deliver m"
  shows "written (snd (run_timer k st)) =
     written st @ concat (map (\<lambda>c. [(c, NotificationEvent), (c, NotificationData m)]) (sseClients st))"
  using assms by (simp add: run_timer_def broadcast_def broadcast_loop_written)

lemma dispatch_frame:
  "observers (dispatch ms st) = observers st \<and> subscribers (dispatch ms st) = subscribers st
   \<and> sseClients (dispatch ms st) = sseClients st \<and> written (dispatch ms st) = written st
   \<and> uuids (dispatch ms st) = uuids st \<and> uuid_calls (dispatch ms st) = uuid_calls st
   \<and> clock (dispatch ms st) = clock st \<and> clock_calls (dispatch ms st) = clock_calls st
   \<and> randoms (dispatch ms st) = randoms st"
  by (induction ms arbitrary: st) (simp_all add: Math_random_def setTimeout_def)

lemma dispatch_timers:
  "\<exists>new. timers (dispatch ms st) = timers st @ new \<and> map callback new = map Deliver ms"
proof (induction ms arbitrary: st)
  case Nil
  then show ?case by simp
next
  case (Cons m ms)
  let ?d = "Math_floor (js_mul (Finite (randoms st (random_calls st))) (Finite 120))"
  let ?t = "\<lparr>delay = ?d, callback = Deliver m\<rparr>"
  let ?st = "setTimeout (Deliver m) ?d
               (st\<lparr>random_calls := Suc (random_calls st)\<rparr>)"
  from Cons [of ?st] obtain new where
    new: "timers (dispatch ms ?st) = timers ?st @ new" "map callback new = map Deliver ms"
    by blast
  have "timers (dispatch (m # ms) st) = timers st @ (?t # new)"
    using new(1) by (simp add: Math_random_def setTimeout_def)
  moreover have "map callback (?t # new) = map Deliver (m # ms)"
    using new(2) by simp
  ultimately show ?case by blast
qed

subsection \<open>The loop of \<open>notifyAll\<close>\<close>

lemma notifyAll_loop_frame:
  assumes "notifyAll_loop os event out st = (r, st')"
  shows "observers st' = observers st \<and> subscribers st' = subscribers st
       \<and> sseClients st' = sseClients st \<and> timers st' = timers st \<and> written st' = written st
       \<and> uuids st' = uuids st \<and> clock st' = clock st \<and> randoms st' = randoms st
       \<and> random_calls st' = random_calls st"
  using assms
proof (induction os arbitrary: out st)
  case Nil
  then show ?case by simp
next
  case (Cons obs os)
  obtain r1 st1 where u: "update obs event st = (r1, st1)" by (cases "update obs event st")
  note f = update_frame [OF u]
  show ?case
  proof (cases r1)
    case (Inl e)
    with Cons.prems u f show ?thesis by simp
  next
    case (Inr m)
    with Cons.prems u have "notifyAll_loop os event (out @ [m]) st1 = (r, st')" by simp
    from Cons.IH [OF this] f show ?thesis by simp
  qed
qed

lemma notifyAll_loop_renders:
  assumes "\<forall>obs \<in> set os. renders obs"
  shows "\<exists>ms st'. notifyAll_loop os event out st = (Inr (out @ ms), st')
     \<and> length ms = length os
     \<and> map userId ms = map (subscriber_id \<circ> observer_subscriber) os
     \<and> map userName ms = map (subscriber_name \<circ> observer_subscriber) os
     \<and> map message_channel ms = map (subscriber_channel \<circ> observer_subscriber) os
     \<and> (\<forall>m \<in> set ms. eventId m = event_id event \<and> eventTitle m = event_title event
            \<and> eventType m = event_type event)"
  using assms
proof (induction os arbitrary: out st)
  case Nil
  then show ?case by simp
next
  case (Cons obs os)
  from Cons.prems have "renders obs" by simp
  from update_renders [OF this, of event st] obtain m st1 where
    u: "update obs event st = (Inr m, st1)"
    and m: "userId m = subscriber_id (observer_subscriber obs)"
       "userName m = subscriber_name (observer_subscriber obs)"
       "message_channel m = subscriber_channel (observer_subscriber obs)"
       "eventId m = event_id event" "eventTitle m = event_title event"
       "eventType m = event_type event"
    by blast
  from Cons.prems have "\<forall>obs \<in> set os. renders obs" by simp
  from Cons.IH [OF this, of "out @ [m]" st1] obtain ms st' where
    l: "notifyAll_loop os event (out @ [m]) st1 = (Inr ((out @ [m]) @ ms), st')"
    and r: "length ms = length os"
       "map userId ms = map (subscriber_id \<circ> observer_subscriber) os"
       "map userName ms = map (subscriber_name \<circ> observer_subscriber) os"
       "map message_channel ms = map (subscriber_channel \<circ> observer_subscriber) os"
       "\<forall>m \<in> set ms. eventId m = event_id event \<and> eventTitle m = event_title event
            \<and> eventType m = event_type event"
    by blast
  have "notifyAll_loop (obs # os) event out st = (Inr (out @ (m # ms)), st')"
    using u l by simp
  moreover have "length (m # ms) = length (obs # os)" using r by simp
  ultimately show ?case using m r
    by (intro exI [of _ "m # ms"] exI [of _ st']) simp
qed

lemma notifyAll_renders:
  assumes "\<forall>obs \<in> set (Map_values (observers st)). renders obs"
  shows "\<exists>out st'. notifyAll event st = (Inr out, st')
     \<and> length out = count st
     \<and> map userId out = map (subscriber_id \<circ> observer_subscriber) (Map_values (observers st))
     \<and> map userName out = map (subscriber_name \<circ> observer_subscriber) (Map_values (observers st))
     \<and> map message_channel out
         = map (subscriber_channel \<circ> observer_subscriber) (Map_values (observers st))
     \<and> (\<forall>m \<in> set out. eventId m = event_id event \<and> eventTitle m = event_title event
            \<and> eventType m = event_type event)"
  using notifyAll_loop_renders [OF assms, of event "[]" st]
  by (simp add: notifyAll_def count_eq Map_values_def)

lemma notifyAll_loop_fails:
  assumes "\<forall>ob \<in> set pre. renders ob" and "\<not> renders obs"
  shows "notifyAll_loop (pre @ obs # post) event out st =
     (Inl (Error (ascii ''Canal no soportado: '' @ subscriber_channel (observer_subscriber obs))),
      st\<lparr>clock_calls := clock_calls st + length pre, uuid_calls := uuid_calls st + length pre\<rparr>)"
  using assms(1)
proof (induction pre arbitrary: out st)
  case Nil
  then show ?case using update_unsupported [OF assms(2)] by simp
next
  case (Cons ob pre)
  then have "renders ob" by simp
  from update_renders [OF this, of event st] obtain m where
    "update ob event st =
       (Inr m, st\<lparr>clock_calls := Suc (clock_calls st), uuid_calls := Suc (uuid_calls st)\<rparr>)"
    by blast
  moreover from Cons.prems have "\<forall>ob \<in> set pre. renders ob" by simp
  ultimately show ?case using Cons.IH by simp
qed

subsection \<open>Publishing\<close>

lemma publishEvent_result:
  "(\<exists>e st1.
      notifyAll \<lparr>event_id = uuids st (uuid_calls st), event_title = title, event_type = type,
                 createdAt = Finite (of_int (clock st (clock_calls st)))\<rparr>
        (st\<lparr>uuid_calls := Suc (uuid_calls st), clock_calls := Suc (clock_calls st)\<rparr>)
        = (Inl e, st1)
      \<and> publishEvent title type st = (Inl e, st1))
   \<or> (\<exists>messages st1.
      notifyAll \<lparr>event_id = uuids st (uuid_calls st), event_title = title, event_type = type,
                 createdAt = Finite (of_int (clock st (clock_calls st)))\<rparr>
        (st\<lparr>uuid_calls := Suc (uuid_calls st), clock_calls := Suc (clock_calls st)\<rparr>)
        = (Inr messages, st1)
      \<and> publishEvent title type st =
         (Inr \<lparr>event_id = uuids st (uuid_calls st), event_title = title, event_type = type,
                createdAt = Finite (of_int (clock st (clock_calls st)))\<rparr>, dispatch messages st1))"
proof -
  let ?ev = "\<lparr>event_id = uuids st (uuid_calls st), event_title = title, event_type = type,
                  createdAt = Finite (of_int (clock st (clock_calls st)))\<rparr>"
  let ?st = "st\<lparr>uuid_calls := Suc (uuid_calls st), clock_calls := Suc (clock_calls st)\<rparr>"
  obtain r st1 where n: "notifyAll ?ev ?st = (r, st1)" by (cases "notifyAll ?ev ?st")
  show ?thesis
  proof (cases r)
    case (Inl e)
    with n have "publishEvent title type st = (Inl e, st1)"
      by (simp add: publishEvent_def cryptoRandomId_def Date_now_def)
    with n Inl show ?thesis by simp
  next
    case (Inr messages)
    with n have "publishEvent title type st = (Inr ?ev, dispatch messages st1)"
      by (simp add: publishEvent_def cryptoRandomId_def Date_now_def)
    with n Inr show ?thesis by simp
  qed
qed

lemma publishEvent_frame:
  "subscribers (snd (publishEvent title type st)) = subscribers st
   \<and> observers (snd (publishEvent title type st)) = observers st
   \<and> sseClients (snd (publishEvent title type st)) = sseClients st
   \<and> written (snd (publishEvent title type st)) = written st
   \<and> (\<exists>new. timers (snd (publishEvent title type st)) = timers st @ new)"
proof -
  let ?ev = "\<lparr>event_id = uuids st (uuid_calls st), event_title = title, event_type = type,
                  createdAt = Finite (of_int (clock st (clock_calls st)))\<rparr>"
  let ?st = "st\<lparr>uuid_calls := Suc (uuid_calls st), clock_calls := Suc (clock_calls st)\<rparr>"
  from publishEvent_result [of st title type] consider
    (throws) e st1 where "notifyAll ?ev ?st = (Inl e, st1)"
      "publishEvent title type st = (Inl e, st1)"
  | (returns) messages st1 where "notifyAll ?ev ?st = (Inr messages, st1)"
      "publishEvent title type st = (Inr ?ev, dispatch messages st1)"
    by blast
  then show ?thesis
  proof cases
    case throws
    from notifyAll_loop_frame [OF throws(1) [unfolded notifyAll_def]] throws(2)
    show ?thesis by simp
  next
    case returns
    from notifyAll_loop_frame [OF returns(1) [unfolded notifyAll_def]] returns(2)
      dispatch_timers [of messages st1]
    show ?thesis by (auto simp: dispatch_frame)
  qed
qed

lemma post_publish_result:
  "(\<exists>msg. post_publish t ty st = (BadRequest msg, st))
   \<or> (\<exists>e. post_publish t ty st
       = (ServerError e, snd (publishEvent (trim (as_string t)) (as_string ty) st)))
   \<or> (\<exists>ev n. post_publish t ty st
       = (PublishOk ev n, snd (publishEvent (trim (as_string t)) (as_string ty) st)))"
  by (cases "publishEvent (trim (as_string t)) (as_string ty) st")
     (auto simp: post_publish_def split: sum.splits)

lemma post_publish_frame:
  "subscribers (snd (post_publish t ty st)) = subscribers st
   \<and> observers (snd (post_publish t ty st)) = observers st
   \<and> sseClients (snd (post_publish t ty st)) = sseClients st
   \<and> written (snd (post_publish t ty st)) = written st"
proof -
  have "snd (post_publish t ty st) = st
      \<or> snd (post_publish t ty st) = snd (publishEvent (trim (as_string t)) (as_string ty) st)"
    using post_publish_result [of t ty st] by auto
  then show ?thesis using publishEvent_frame [of "trim (as_string t)" "as_string ty" st]
    by auto
qed

subsection \<open>The handlers\<close>

lemma name_accepted_iff:
  "(\<not> truthy name \<or> typeof name \<noteq> ''string'') \<longleftrightarrow> \<not> (\<exists>s. name = JString s \<and> s \<noteq> [])"
  by (cases name) simp_all

lemma trim_all_whitespace:
  assumes "\<forall>c \<in> set s. js_whitespace c"
  shows "trim s = []"
proof -
  from assms have d: "dropWhile js_whitespace s = []" by (induction s) simp_all
  show ?thesis unfolding trim_def d by simp
qed

lemma post_subscribe_result:
  "(\<exists>msg. post_subscribe name channel st = (BadRequest msg, st))
   \<or> post_subscribe name channel st =
      (SubscribeOk (fst (subscribeUser (trim (as_string name)) (as_string channel) st))
         (count (snd (subscribeUser (trim (as_string name)) (as_string channel) st))),
       snd (subscribeUser (trim (as_string name)) (as_string channel) st))"
  by (simp add: post_subscribe_def subscriberCount_def split_beta)

lemma post_unsubscribe_result:
  "post_unsubscribe i st =
     (if truthy i then (UnsubscribeOk (count (unsubscribeUser i st)), unsubscribeUser i st)
      else (BadRequest (ascii ''id es requerido''), st))"
  by (simp add: post_unsubscribe_def subscriberCount_def Let_def)

lemma post_subscribe_frame:
  "sseClients (snd (post_subscribe name channel st)) = sseClients st
   \<and> written (snd (post_subscribe name channel st)) = written st
   \<and> timers (snd (post_subscribe name channel st)) = timers st"
  using post_subscribe_result [of name channel st]
  by (auto simp: subscribeUser_fields)

lemma post_unsubscribe_frame:
  "sseClients (snd (post_unsubscribe i st)) = sseClients st
   \<and> written (snd (post_unsubscribe i st)) = written st
   \<and> timers (snd (post_unsubscribe i st)) = timers st"
  by (simp add: post_unsubscribe_result unsubscribeUser_fields)

subsection \<open>Invariants of the server\<close>

lemma step_consistent:
  assumes "registry_consistent st"
  shows "registry_consistent (snd (step r st))"
proof (cases r)
  case (PostSubscribe name channel)
  have "registry_consistent (snd (subscribeUser n ch st))" for n ch
    using assms
    by (simp add: registry_consistent_def subscribeUser_fields Map_keys_Map_set distinct_Map_set)
  then show ?thesis using assms PostSubscribe post_subscribe_result [of name channel st]
    by auto
next
  case (PostUnsubscribe i)
  have "registry_consistent (unsubscribeUser i st)"
    using assms
    by (simp add: registry_consistent_def unsubscribeUser_fields Map_keys_Map_delete)
  then show ?thesis using assms PostUnsubscribe by (simp add: post_unsubscribe_result)
next
  case GetSubscribers
  then show ?thesis using assms by (simp add: get_subscribers_def)
next
  case (PostPublish title type)
  then show ?thesis using assms post_publish_frame [of title type st]
    by (simp add: registry_consistent_def)
next
  case (GetEvents res)
  then show ?thesis using assms
    by (simp add: registry_consistent_def get_events_def addSseClient_def res_write_def)
next
  case (Close res)
  then show ?thesis using assms
    by (simp add: registry_consistent_def on_close_def removeSseClient_def)
next
  case (TimerFires k)
  then show ?thesis using assms run_timer_frame [of k st]
    by (simp add: registry_consistent_def)
qed

lemma run_consistent:
  "registry_consistent st \<Longrightarrow> registry_consistent (run rs st)"
  by (induction rs arbitrary: st) (simp_all add: step_consistent)

lemma initial_consistent: "registry_consistent (initial u c r)"
  by (simp add: registry_consistent_def initial_def Map_keys_def)

lemma listeners_valid_step:
  assumes "listeners_valid st"
  shows "listeners_valid (snd (step r st))"
proof (cases r)
  case (PostSubscribe name channel)
  show ?thesis
  proof (cases "\<not> truthy name \<or> typeof name \<noteq> ''string''
      \<or> \<not> truthy channel \<or> \<not> Array_includes [ascii ''email'', ascii ''sms'', ascii ''push''] channel")
    case True
    then show ?thesis using assms PostSubscribe by (auto simp: post_subscribe_def)
  next
    case False
    then have ch: "as_string channel \<in> {ascii ''email'', ascii ''sms'', ascii ''push''}"
      by (auto simp: Array_includes_def)
    from False have "snd (step r st) = snd (subscribeUser (trim (as_string name)) (as_string channel) st)"
      using PostSubscribe by (simp add: post_subscribe_def split: prod.splits)
    then show ?thesis using assms ch set_Map_set
      unfolding listeners_valid_def subscribeUser_fields
      by (fastforce simp: renders_def)
  qed
next
  case (PostUnsubscribe i)
  then show ?thesis using assms set_Map_delete [of i "observers st"]
    by (auto simp: post_unsubscribe_def Let_def unsubscribeUser_fields listeners_valid_def)
next
  case GetSubscribers
  then show ?thesis using assms by (simp add: get_subscribers_def)
next
  case (PostPublish title type)
  then show ?thesis using assms post_publish_frame [of title type st]
    by (simp add: listeners_valid_def)
next
  case (GetEvents res)
  then show ?thesis using assms
    by (simp add: listeners_valid_def get_events_def addSseClient_def res_write_def)
next
  case (Close res)
  then show ?thesis using assms
    by (simp add: listeners_valid_def on_close_def removeSseClient_def)
next
  case (TimerFires k)
  then show ?thesis using assms run_timer_frame [of k st]
    by (simp add: listeners_valid_def)
qed

lemma listeners_valid_run:
  "listeners_valid st \<Longrightarrow> listeners_valid (run rs st)"
  by (induction rs arbitrary: st) (simp_all add: listeners_valid_step)

lemma listeners_valid_initial: "listeners_valid (initial u c r)"
  by (simp add: listeners_valid_def initial_def)

subsection \<open>Counting subscribers along a run\<close>

lemma churn_count:
  assumes "distinct (Map_keys (observers st))" and "distinct live"
    and "set live \<subseteq> set (Map_keys (observers st))" and "churn live rs st"
  shows "count (run rs st) + successful_unsubscribes rs st = count st + successful_subscribes rs st
       \<and> successful_unsubscribes rs st \<le> successful_subscribes rs st + length live"
  using assms
proof (induction rs arbitrary: live st)
  case Nil
  then show ?case by simp
next
  case (Cons r rs)
  show ?case
  proof (cases r)
    case (PostSubscribe name channel)
    let ?k = "uuids st (uuid_calls st)"
    let ?st = "snd (subscribeUser (trim (as_string name)) (as_string channel) st)"
    from post_subscribe_result [of name channel st] consider
      (rejected) msg where "post_subscribe name channel st = (BadRequest msg, st)"
    | (accepted) "post_subscribe name channel st =
        (SubscribeOk (fst (subscribeUser (trim (as_string name)) (as_string channel) st))
           (count ?st), ?st)"
      by blast
    then show ?thesis
    proof cases
      case rejected
      with Cons.prems PostSubscribe have "churn live rs st" by simp
      from Cons.IH [OF Cons.prems(1-3) this] rejected PostSubscribe show ?thesis by simp
    next
      case accepted
      from accepted Cons.prems(4) PostSubscribe
      have fresh: "?k \<notin> set (Map_keys (observers st))" and c: "churn (?k # live) rs ?st"
        by (simp_all add: subscribeUser_fields)
      have obs: "Map_keys (observers ?st) = Map_keys (observers st) @ [?k]"
        using fresh by (simp add: subscribeUser_fields Map_set_fresh Map_keys_def)
      have 1: "distinct (Map_keys (observers ?st))" using Cons.prems(1) fresh obs by simp
      have 2: "distinct (?k # live)" using Cons.prems(2,3) fresh by auto
      have 3: "set (?k # live) \<subseteq> set (Map_keys (observers ?st))"
        using Cons.prems(3) obs by auto
      have "length (Map_keys (observers ?st)) = Suc (length (Map_keys (observers st)))"
        unfolding obs by simp
      then have "count ?st = Suc (count st)"
        by (simp add: count_eq Map_keys_def)
      with Cons.IH [OF 1 2 3 c] accepted PostSubscribe show ?thesis by simp
    qed
  next
    case (PostUnsubscribe i)
    let ?st = "unsubscribeUser i st"
    show ?thesis
    proof (cases "truthy i")
      case False
      then have rej: "post_unsubscribe i st = (BadRequest (ascii ''id es requerido''), st)"
        by (simp add: post_unsubscribe_result)
      with Cons.prems PostUnsubscribe have "churn live rs st" by simp
      from Cons.IH [OF Cons.prems(1-3) this] rej PostUnsubscribe show ?thesis by simp
    next
      case True
      then have acc: "post_unsubscribe i st = (UnsubscribeOk (count ?st), ?st)"
        by (simp add: post_unsubscribe_result)
      with Cons.prems(4) PostUnsubscribe
      have "i \<in> JString ` set live" and c: "churn (removeAll (as_string i) live) rs ?st"
        by simp_all
      then obtain k where k: "i = JString k" "k \<in> set live" by auto
      have keys: "Map_keys (observers ?st) = filter (\<lambda>k'. k' \<noteq> k) (Map_keys (observers st))"
        using k by (simp add: unsubscribeUser_fields Map_keys_Map_delete)
      have 1: "distinct (Map_keys (observers ?st))" using Cons.prems(1) keys by simp
      have 2: "distinct (removeAll (as_string i) live)"
        using Cons.prems(2) by (simp add: distinct_removeAll)
      have 3: "set (removeAll (as_string i) live) \<subseteq> set (Map_keys (observers ?st))"
        using Cons.prems(3) keys k by auto
      have "k \<in> set (Map_keys (observers st))" using k Cons.prems(3) by auto
      from length_Map_delete_present [OF Cons.prems(1) this]
      have cnt: "Suc (count ?st) = count st"
        using k by (simp add: count_eq unsubscribeUser_fields)
      have "length (remove1 k live) = length live - 1"
        using k(2) by (simp add: length_remove1)
      moreover have "0 < length live" using k(2) by (cases live) auto
      ultimately have "Suc (length (removeAll (as_string i) live)) = length live"
        using k Cons.prems(2) by (simp add: distinct_remove1_removeAll [symmetric])
      with Cons.IH [OF 1 2 3 c] acc PostUnsubscribe cnt show ?thesis by simp
    qed
  next
    case GetSubscribers
    with Cons.prems have "churn live rs st" by (simp add: get_subscribers_def)
    from Cons.IH [OF Cons.prems(1-3) this] GetSubscribers show ?thesis
      by (simp add: get_subscribers_def)
  next
    case (PostPublish t ty)
    let ?st = "snd (post_publish t ty st)"
    have o: "observers ?st = observers st"
      using post_publish_frame [of t ty st] by simp
    from Cons.prems PostPublish have c: "churn live rs ?st" by simp
    have "count ?st = count st" using o by (simp add: count_eq)
    with Cons.IH [of ?st live] Cons.prems(1-3) c o PostPublish
      post_publish_result [of t ty st]
    show ?thesis by auto
  next
    case (GetEvents res)
    let ?st = "snd (get_events res st)"
    have o: "observers ?st = observers st"
      by (simp add: get_events_def addSseClient_def res_write_def)
    from Cons.prems GetEvents have c: "churn live rs ?st" by simp
    have "count ?st = count st" using o by (simp add: count_eq)
    with Cons.IH [of ?st live] Cons.prems(1-3) c o GetEvents show ?thesis
      by (simp add: get_events_def)
  next
    case (Close res)
    let ?st = "snd (on_close res st)"
    have o: "observers ?st = observers st"
      by (simp add: on_close_def removeSseClient_def)
    from Cons.prems Close have c: "churn live rs ?st" by simp
    have "count ?st = count st" using o by (simp add: count_eq)
    with Cons.IH [of ?st live] Cons.prems(1-3) c o Close show ?thesis
      by (simp add: on_close_def)
  next
    case (TimerFires k)
    let ?st = "snd (run_timer k st)"
    have o: "observers ?st = observers st"
      using run_timer_frame [of k st] by simp
    have f: "fst (run_timer k st) = TimerDone"
      by (simp add: run_timer_def split: Callback.splits)
    from Cons.prems TimerFires have c: "churn live rs ?st" by simp
    have "count ?st = count st" using o by (simp add: count_eq)
    with Cons.IH [of ?st live] Cons.prems(1-3) c o TimerFires f show ?thesis
      by (simp add: split_beta)
  qed
qed

subsection \<open>A client that is not in the set\<close>

lemma run_timer_written_absent:
  assumes "c \<notin> set (sseClients st)"
  shows "filter (\<lambda>w. fst w = c) (written (snd (run_timer k st)))
       = filter (\<lambda>w. fst w = c) (written st)"
proof (cases "k < length (timers st)")
  case True
  obtain m where m: "callback (timers st ! k) = Deliver m"
    by (cases "callback (timers st ! k)")
  have "filter (\<lambda>w. fst w = c)
      (concat (map (\<lambda>c. [(c, NotificationEvent), (c, NotificationData m)]) cs)) = []"
    if "c \<notin> set cs" for cs
    using that by (induction cs) auto
  with assms run_timer_written [OF True m] show ?thesis by simp
next
  case False
  then show ?thesis by (simp add: run_timer_def)
qed

lemma step_absent_client:
  assumes "c \<notin> set (sseClients st)" and "r \<noteq> GetEvents c"
  shows "c \<notin> set (sseClients (snd (step r st)))
       \<and> filter (\<lambda>w. fst w = c) (written (snd (step r st)))
           = filter (\<lambda>w. fst w = c) (written st)"
proof (cases r)
  case (PostSubscribe name channel)
  then show ?thesis using assms post_subscribe_frame [of name channel st] by simp
next
  case (PostUnsubscribe i)
  then show ?thesis using assms post_unsubscribe_frame [of i st] by simp
next
  case GetSubscribers
  then show ?thesis using assms by (simp add: get_subscribers_def)
next
  case (PostPublish t ty)
  then show ?thesis using assms post_publish_frame [of t ty st] by simp
next
  case (GetEvents res)
  then show ?thesis using assms
    by (auto simp: get_events_def addSseClient_def res_write_def Set_add_def)
next
  case (Close res)
  then show ?thesis using assms
    by (simp add: on_close_def removeSseClient_def Set_delete_def)
next
  case (TimerFires k)
  then show ?thesis using assms run_timer_frame [of k st] run_timer_written_absent [of c st k]
    by simp
qed

lemma run_absent_client:
  assumes "c \<notin> set (sseClients st)" and "GetEvents c \<notin> set rs"
  shows "filter (\<lambda>w. fst w = c) (written (run rs st)) = filter (\<lambda>w. fst w = c) (written st)"
  using assms
proof (induction rs arbitrary: st)
  case Nil
  then show ?case by simp
next
  case (Cons r rs)
  then have "r \<noteq> GetEvents c" and rest: "GetEvents c \<notin> set rs" by auto
  from step_absent_client [OF Cons.prems(1) this(1)]
  have a: "c \<notin> set (sseClients (snd (step r st)))"
    and w: "filter (\<lambda>w. fst w = c) (written (snd (step r st)))
          = filter (\<lambda>w. fst w = c) (written st)"
    by simp_all
  from Cons.IH [OF a rest] w show ?case by simp
qed

subsection \<open>The sample states, evaluated\<close>

lemma two_subscribers_eval:
  "two_subscribers = example_state
     \<lparr>uuid_calls := 2,
      subscribers :=
        [(example_uuids 0, \<lparr>subscriber_id = example_uuids 0, subscriber_name = ascii ''Ana'',
                             subscriber_channel = ascii ''email''\<rparr>),
         (example_uuids 1, \<lparr>subscriber_id = example_uuids 1, subscriber_name = ascii ''Bo'',
                             subscriber_channel = ascii ''sms''\<rparr>)],
      observers :=
        [(example_uuids 0, UserSubscriber \<lparr>subscriber_id = example_uuids 0,
                             subscriber_name = ascii ''Ana'', subscriber_channel = ascii ''email''\<rparr>),
         (example_uuids 1, UserSubscriber \<lparr>subscriber_id = example_uuids 1,
                             subscriber_name = ascii ''Bo'', subscriber_channel = ascii ''sms''\<rparr>)]\<rparr>"
  by (simp add: two_subscribers_def example_state_def initial_def post_subscribe_def
      Array_includes_def subscribeUser_fields trim_def js_whitespace_def ascii_def
      example_uuids_def)

lemma pending_delivery_eval:
  "sseClients pending_delivery = [7, 8]
   \<and> timers pending_delivery =
       [\<lparr>delay = Finite 60, callback = Deliver
          \<lparr>message_id = example_uuids 2, userId = example_uuids 0, userName = ascii ''Ana'',
            message_channel = ascii ''email'', eventId = example_uuids 1,
            eventTitle = ascii ''X'', eventType = ascii ''CREATED'', sentAt = Finite 1001,
            latencyMs = Finite 1,
            rendered = [0xD83D, 0xDCE7] @ ascii '' Email a Ana: Evento '' @ [0x22]
               @ ascii ''X'' @ [0x22] @ ascii '' (CREATED)''\<rparr>\<rparr>]
   \<and> written pending_delivery = [(7, HelloEvent), (7, HelloData), (8, HelloEvent), (8, HelloData)]"
  by (simp add: pending_delivery_def get_events_def addSseClient_def Set_add_def res_write_def
      post_subscribe_def Array_includes_def subscribeUser_fields trim_def js_whitespace_def
      post_publish_def publishEvent_def notifyAll_def Map_values_def update.simps
      NotificationFactory_create_def Date_now_def cryptoRandomId_def Math_random_def
      setTimeout_def evento_def round_double_samples Math_max_def
      example_state_def initial_def example_uuids_def ascii_def)

section \<open>The claims\<close>

text \<open>
  Claim C1. \<open>notifyAll(event)\<close> returns one \<open>NotificationMessage\<close> per registered
  listener, in registration order. First conjunct: on any bus whose listeners all render
  (no renderer failure), the result is a list as long as \<open>count()\<close> whose i-th message
  carries the id, name and channel of the i-th listener of the map and the fields of the
  event. Second conjunct: in every state the server reaches from its start, all
  listeners render, and the user ids of the batch are the keys of the listener map in
  their order. Third conjunct: the order of the map is the order of registration, since
  registering under a new id appends.
\<close>

theorem notifyAll_one_per_listener:
  "((\<forall>obs \<in> set (Map_values (observers st)). renders obs) \<longrightarrow>
      (\<exists>out st'. notifyAll event st = (Inr out, st')
         \<and> length out = count st
         \<and> map userId out = map (subscriber_id \<circ> observer_subscriber) (Map_values (observers st))
         \<and> map userName out = map (subscriber_name \<circ> observer_subscriber) (Map_values (observers st))
         \<and> map message_channel out
             = map (subscriber_channel \<circ> observer_subscriber) (Map_values (observers st))
         \<and> (\<forall>m \<in> set out. eventId m = event_id event \<and> eventTitle m = event_title event
                \<and> eventType m = event_type event)))
   \<and> (\<exists>out st'. notifyAll event (run rs (initial u c r)) = (Inr out, st')
         \<and> length out = count (run rs (initial u c r))
         \<and> map userId out = Map_keys (observers (run rs (initial u c r))))
   \<and> (k \<notin> set (Map_keys (observers st))
        \<longrightarrow> observers (EventBus_subscribe k obs st) = observers st @ [(k, obs)])"
proof -
  let ?st = "run rs (initial u c r)"
  have v: "listeners_valid ?st"
    by (rule listeners_valid_run [OF listeners_valid_initial])
  then have "\<forall>obs \<in> set (Map_values (observers ?st)). renders obs"
    by (auto simp: listeners_valid_def Map_values_def)
  from notifyAll_renders [OF this, of event] obtain out st' where
    n: "notifyAll event ?st = (Inr out, st')" "length out = count ?st"
    "map userId out = map (subscriber_id \<circ> observer_subscriber) (Map_values (observers ?st))"
    by blast
  have "map (subscriber_id \<circ> observer_subscriber) (Map_values (observers ?st))
      = Map_keys (observers ?st)"
    using v by (auto simp: listeners_valid_def Map_values_def Map_keys_def)
  with n have 2: "\<exists>out st'. notifyAll event ?st = (Inr out, st')
         \<and> length out = count ?st \<and> map userId out = Map_keys (observers ?st)"
    by simp
  show ?thesis using notifyAll_renders [of st event] 2
    by (simp add: EventBus_subscribe_def Map_set_fresh)
qed

theorem notifyAll_one_per_listener_witness:
  "list_all renders (Map_values (observers two_subscribers))
   \<and> count two_subscribers = 2
   \<and> map_sum id (map userName) (fst (notifyAll future_event two_subscribers))
       = Inr [ascii ''Ana'', ascii ''Bo'']
   \<and> map_sum id (map userId) (fst (notifyAll future_event two_subscribers))
       = Inr [example_uuids 0, example_uuids 1]"
  using notifyAll_one_per_listener [of two_subscribers future_event]
  by (simp add: two_subscribers_eval Map_values_def renders_def count_eq notifyAll_def
      update.simps NotificationFactory_create_def Date_now_def cryptoRandomId_def
      example_state_def initial_def ascii_def)




text \<open>
  Claim C3. In every state that the server reaches from its start by any sequence of
  requests and timer callbacks (subscribe, unsubscribe and publish among them), the ids
  of the listener map of the bus are the ids of the registry, and each id stands once in
  either map. \<open>subscribeUser\<close> and \<open>unsubscribeUser\<close> each keep the two sets of ids
  equal, from any state in which they are equal.
\<close>

theorem registry_and_bus_have_the_same_ids:
  "set (Map_keys (observers (run rs (initial u c r))))
     = set (Map_keys (subscribers (run rs (initial u c r))))
   \<and> distinct (Map_keys (observers (run rs (initial u c r))))
   \<and> distinct (Map_keys (subscribers (run rs (initial u c r))))
   \<and> (set (Map_keys (observers st)) = set (Map_keys (subscribers st))
        \<longrightarrow> set (Map_keys (observers (snd (subscribeUser name channel st))))
            = set (Map_keys (subscribers (snd (subscribeUser name channel st)))))
   \<and> (set (Map_keys (observers st)) = set (Map_keys (subscribers st))
        \<longrightarrow> set (Map_keys (observers (unsubscribeUser i st)))
            = set (Map_keys (subscribers (unsubscribeUser i st))))"
proof -
  have "registry_consistent (run rs (initial u c r))"
    by (rule run_consistent [OF initial_consistent])
  then show ?thesis
    by (simp add: registry_consistent_def subscribeUser_fields unsubscribeUser_fields
        Map_keys_Map_set Map_keys_Map_delete)
qed

theorem registry_and_bus_have_the_same_ids_witness:
  "set (Map_keys (observers two_subscribers)) = set (Map_keys (subscribers two_subscribers))
   \<and> Map_keys (observers (snd (subscribeUser (ascii ''Cy'') (ascii ''push'') two_subscribers)))
       = [example_uuids 0, example_uuids 1, example_uuids 2]
   \<and> Map_keys (subscribers (snd (subscribeUser (ascii ''Cy'') (ascii ''push'') two_subscribers)))
       = [example_uuids 0, example_uuids 1, example_uuids 2]
   \<and> Map_keys (observers (unsubscribeUser (JString (example_uuids 0)) two_subscribers))
       = [example_uuids 1]
   \<and> Map_keys (subscribers (unsubscribeUser (JString (example_uuids 0)) two_subscribers))
       = [example_uuids 1]"
  using registry_and_bus_have_the_same_ids
    [of "[PostSubscribe (JString (ascii ''Ana'')) (JString (ascii ''email'')),
          PostSubscribe (JString (ascii '' Bo '')) (JString (ascii ''sms''))]"
        example_uuids "\<lambda>n. 1000 + int n" "\<lambda>n. 1 / 2" two_subscribers
        "ascii ''Cy''" "ascii ''push''" "JString (example_uuids 0)"]
  by (simp add: two_subscribers_eval subscribeUser_fields unsubscribeUser_fields
      example_state_def initial_def Map_keys_def Map_delete_def example_uuids_def ascii_def)

text \<open>
  Claim C4. From any state, along any run in which N subscribes succeed, each with an
  id that is not registered when it is generated, and M unsubscribes succeed, each for
  a different one of those N subscribers after it was created, \<open>count()\<close> ends N - M
  above where it started, and M is at most N. (\<open>distinct\<close> says that the listener map is
  a \<open>Map\<close>: no key twice. Rejected requests, publishes, connections and timers may stand
  anywhere in the run.)
\<close>

theorem count_after_churn:
  assumes "distinct (Map_keys (observers st))" and "churn [] rs st"
  shows "count (run rs st) + successful_unsubscribes rs st = count st + successful_subscribes rs st
       \<and> successful_unsubscribes rs st \<le> successful_subscribes rs st"
  using churn_count [OF assms(1) _ _ assms(2)] by simp

theorem count_after_churn_witness:
  "distinct (Map_keys (observers two_subscribers)) \<and> churn [] churn_requests two_subscribers
   \<and> successful_subscribes churn_requests two_subscribers = 2
   \<and> successful_unsubscribes churn_requests two_subscribers = 1
   \<and> count two_subscribers = 2
   \<and> count (run churn_requests two_subscribers) = 3"
  using count_after_churn [of two_subscribers churn_requests]
  by (simp add: churn_requests_def two_subscribers_eval Map_keys_def count_eq
      post_subscribe_def post_unsubscribe_def get_subscribers_def Array_includes_def
      subscribeUser_fields unsubscribeUser_fields Map_delete_def subscriberCount_def
      trim_def js_whitespace_def example_state_def initial_def example_uuids_def ascii_def)

text \<open>
  Claim C5, as amended. \<open>notifyAll\<close> does not isolate its listeners. When the listeners
  before some listener all render and that listener's build step throws, \<open>notifyAll\<close>
  throws that listener's error: it returns no batch, only the listeners before the
  failing one have built a message (one UUID each), and no later listener runs.
  \<open>publishEvent\<close> throws the same error, schedules no delivery and writes nothing.
\<close>

theorem notifyAll_failure_propagates:
  assumes "Map_values (observers st) = pre @ obs # post"
    and "\<forall>ob \<in> set pre. renders ob" and "\<not> renders obs"
  shows "fst (notifyAll event st)
           = Inl (Error (ascii ''Canal no soportado: '' @ subscriber_channel (observer_subscriber obs)))
       \<and> uuid_calls (snd (notifyAll event st)) = uuid_calls st + length pre
       \<and> fst (publishEvent title type st)
           = Inl (Error (ascii ''Canal no soportado: '' @ subscriber_channel (observer_subscriber obs)))
       \<and> timers (snd (publishEvent title type st)) = timers st
       \<and> written (snd (publishEvent title type st)) = written st"
proof -
  have n: "notifyAll ev s =
     (Inl (Error (ascii ''Canal no soportado: '' @ subscriber_channel (observer_subscriber obs))),
      s\<lparr>clock_calls := clock_calls s + length pre, uuid_calls := uuid_calls s + length pre\<rparr>)"
    if "observers s = observers st" for ev s
    using notifyAll_loop_fails [OF assms(2,3)] assms(1) that by (simp add: notifyAll_def)
  from publishEvent_result [of st title type] n show ?thesis by auto
qed

theorem notifyAll_failure_propagates_witness:
  "Map_values (observers one_bad_channel)
     = [UserSubscriber \<lparr>subscriber_id = example_uuids 0, subscriber_name = ascii ''Ana'',
                          subscriber_channel = ascii ''email''\<rparr>]
       @ UserSubscriber \<lparr>subscriber_id = example_uuids 1, subscriber_name = ascii ''Fay'',
                          subscriber_channel = ascii ''fax''\<rparr>
       # [UserSubscriber \<lparr>subscriber_id = example_uuids 2, subscriber_name = ascii ''Cy'',
                          subscriber_channel = ascii ''sms''\<rparr>]
   \<and> fst (publishEvent (ascii ''X'') (ascii ''CREATED'') one_bad_channel)
       = Inl (Error (ascii ''Canal no soportado: fax''))
   \<and> timers (snd (publishEvent (ascii ''X'') (ascii ''CREATED'') one_bad_channel)) = []"
  using notifyAll_failure_propagates
    [of one_bad_channel
        "[UserSubscriber \<lparr>subscriber_id = example_uuids 0, subscriber_name = ascii ''Ana'',
                          subscriber_channel = ascii ''email''\<rparr>]"
        "UserSubscriber \<lparr>subscriber_id = example_uuids 1, subscriber_name = ascii ''Fay'',
                          subscriber_channel = ascii ''fax''\<rparr>"
        "[UserSubscriber \<lparr>subscriber_id = example_uuids 2, subscriber_name = ascii ''Cy'',
                          subscriber_channel = ascii ''sms''\<rparr>]"
        future_event "ascii ''X''" "ascii ''CREATED''"]
  by (simp add: one_bad_channel_def subscribeUser_fields Map_values_def renders_def
      example_state_def initial_def example_uuids_def ascii_def)

text \<open>
  Claim C5 as stated fails. With three listeners of which the second has the channel
  \<open>fax\<close>, the claim has \<open>notifyAll\<close> return the two notifications of the other
  listeners and the publish call go through; the code throws out of \<open>notifyAll\<close> and out
  of \<open>publishEvent\<close>, and the publish handler answers with the error.
\<close>

theorem notifyAll_isolation_counterexample:
  "count one_bad_channel = 3
   \<and> fst (notifyAll future_event one_bad_channel) = Inl (Error (ascii ''Canal no soportado: fax''))
   \<and> fst (publishEvent (ascii ''X'') (ascii ''CREATED'') one_bad_channel)
       = Inl (Error (ascii ''Canal no soportado: fax''))
   \<and> fst (post_publish (JString (ascii ''X'')) (JString (ascii ''CREATED'')) one_bad_channel)
       = ServerError (Error (ascii ''Canal no soportado: fax''))"
  by (simp add: one_bad_channel_def subscribeUser_fields count_eq notifyAll_def Map_values_def
      update.simps NotificationFactory_create_def Date_now_def cryptoRandomId_def
      publishEvent_def post_publish_def Array_includes_def trim_def js_whitespace_def
      example_state_def initial_def example_uuids_def ascii_def future_event_def)

text \<open>
  Claim C6, as amended. For an id that is not in the registry (of a state whose bus
  holds the ids of the registry), \<open>unsubscribeUser(id)\<close> changes nothing: the state,
  with its registry, its listener map and \<open>count()\<close>, is the same. The unsubscribe
  handler answers such an id with success and the unchanged total when the id is
  truthy (a non-empty string, for one), and with the 400 \<open>id es requerido\<close> when it is
  not; the state is unchanged either way.
\<close>

theorem unsubscribe_unknown_id:
  assumes "i \<notin> JString ` set (Map_keys (subscribers st))"
    and "set (Map_keys (observers st)) = set (Map_keys (subscribers st))"
  shows "unsubscribeUser i st = st
       \<and> count (unsubscribeUser i st) = count st
       \<and> post_unsubscribe i st =
           (if truthy i then (UnsubscribeOk (count st), st)
            else (BadRequest (ascii ''id es requerido''), st))"
proof -
  from assms have "i \<notin> JString ` set (Map_keys (observers st))" by simp
  with assms(1) have "unsubscribeUser i st = st"
    by (simp add: unsubscribeUser_fields Map_delete_absent)
  then show ?thesis by (simp add: post_unsubscribe_def subscriberCount_def)
qed

theorem unsubscribe_unknown_id_witness:
  "JString (ascii ''nobody'') \<notin> JString ` set (Map_keys (subscribers two_subscribers))
   \<and> set (Map_keys (observers two_subscribers)) = set (Map_keys (subscribers two_subscribers))
   \<and> post_unsubscribe (JString (ascii ''nobody'')) two_subscribers
       = (UnsubscribeOk 2, two_subscribers)"
  using unsubscribe_unknown_id [of "JString (ascii ''nobody'')" two_subscribers]
  by (simp add: two_subscribers_eval Map_keys_def example_uuids_def ascii_def count_eq)

text \<open>
  Claim C6 as stated fails for the empty id: it is not in the registry, and the
  unsubscribe handler answers it with an error, not with success.
\<close>

theorem unsubscribe_empty_id_counterexample:
  "JString [] \<notin> JString ` set (Map_keys (subscribers two_subscribers))
   \<and> fst (post_unsubscribe (JString []) two_subscribers) = BadRequest (ascii ''id es requerido'')"
  by (simp add: two_subscribers_eval Map_keys_def example_uuids_def ascii_def post_unsubscribe_def)

text \<open>
  Claim C7. A subscribe request whose name is not a non-empty string (missing, for one)
  or whose channel is not one of the strings \<open>email\<close>, \<open>sms\<close>, \<open>push\<close> is answered
  with one of the two 400 messages, and the state after it is the state before it: the
  registry, the listener map and \<open>count()\<close> are the same.
\<close>

theorem subscribe_rejects_invalid:
  assumes "\<not> (\<exists>s. name = JString s \<and> s \<noteq> [])
         \<or> channel \<notin> {JString (ascii ''email''), JString (ascii ''sms''), JString (ascii ''push'')}"
  shows "(post_subscribe name channel st = (BadRequest (ascii ''name es requerido''), st)
          \<or> post_subscribe name channel st =
               (BadRequest (ascii ''channel inv'' @ [0xE1] @ ascii ''lido (email|sms|push)''), st))
       \<and> subscribers (snd (post_subscribe name channel st)) = subscribers st
       \<and> observers (snd (post_subscribe name channel st)) = observers st
       \<and> count (snd (post_subscribe name channel st)) = count st"
proof -
  have "\<not> truthy name \<or> typeof name \<noteq> ''string''
      \<or> \<not> Array_includes [ascii ''email'', ascii ''sms'', ascii ''push''] channel"
    using assms name_accepted_iff [of name] by (auto simp: Array_includes_def)
  then show ?thesis by (auto simp: post_subscribe_def)
qed

theorem subscribe_rejects_invalid_witness:
  "JString (ascii ''fax'') \<notin> {JString (ascii ''email''), JString (ascii ''sms''), JString (ascii ''push'')}
   \<and> post_subscribe (JString (ascii ''Ana'')) (JString (ascii ''fax'')) two_subscribers =
       (BadRequest (ascii ''channel inv'' @ [0xE1] @ ascii ''lido (email|sms|push)''), two_subscribers)
   \<and> post_subscribe JUndefined (JString (ascii ''email'')) two_subscribers =
       (BadRequest (ascii ''name es requerido''), two_subscribers)"
  using subscribe_rejects_invalid [of "JString (ascii ''Ana'')" "JString (ascii ''fax'')" two_subscribers]
    subscribe_rejects_invalid [of JUndefined "JString (ascii ''email'')" two_subscribers]
  by (simp add: ascii_def post_subscribe_def Array_includes_def)

text \<open>
  Claim C8. When the callback of a scheduled notification runs, the chunks of the
  notification are written to the clients that are in the client set at that moment,
  each once, and to nobody else (first conjunct). So a client that was removed from the
  set, whatever was scheduled while it was connected, is written nothing from then on,
  by no timer and no request, as long as it does not connect again (second conjunct).
\<close>

theorem delivery_to_clients_connected_at_fire_time:
  "(k < length (timers st) \<and> callback (timers st ! k) = Deliver m \<longrightarrow>
      written (snd (run_timer k st)) =
        written st @ concat (map (\<lambda>c. [(c, NotificationEvent), (c, NotificationData m)]) (sseClients st)))
   \<and> (GetEvents c \<notin> set rs \<longrightarrow>
        filter (\<lambda>w. fst w = c) (written (run rs (snd (on_close c st))))
          = filter (\<lambda>w. fst w = c) (written st))"
proof -
  have "c \<notin> set (sseClients (snd (on_close c st)))"
    by (simp add: on_close_def removeSseClient_def Set_delete_def)
  from run_absent_client [OF this, of rs] run_timer_written [of k st m]
  show ?thesis by (simp add: on_close_def removeSseClient_def)
qed

theorem delivery_to_clients_connected_at_fire_time_witness:
  "7 \<in> set (sseClients pending_delivery) \<and> length (timers pending_delivery) = 1
   \<and> GetEvents 7 \<notin> set [TimerFires 0]
   \<and> map fst (written pending_delivery) = [7, 7, 8, 8]
   \<and> map fst (written (run [TimerFires 0] (snd (on_close 7 pending_delivery)))) = [7, 7, 8, 8, 8, 8]
   \<and> map fst (written (run [TimerFires 0] pending_delivery)) = [7, 7, 8, 8, 7, 7, 8, 8]"
  using delivery_to_clients_connected_at_fire_time [of 0 pending_delivery _ 7 "[TimerFires 0]"]
    pending_delivery_eval
  by (simp add: run_timer_def broadcast_def res_write_def on_close_def
      removeSseClient_def Set_delete_def)

text \<open>
  Claim C9. A name that is a non-empty string of whitespace only passes the validation
  of the subscribe handler, and the subscriber that is created, answered and stored has
  the empty string as its name: \<open>trim\<close> runs after the check. The name is rejected
  exactly when it is not a non-empty string.
\<close>

theorem whitespace_name_is_stored_empty:
  assumes "n \<noteq> []" and "\<forall>c \<in> set n. js_whitespace c"
    and "channel \<in> {ascii ''email'', ascii ''sms'', ascii ''push''}"
  shows "fst (post_subscribe (JString n) (JString channel) st) =
           SubscribeOk \<lparr>subscriber_id = uuids st (uuid_calls st), subscriber_name = [],
                        subscriber_channel = channel\<rparr>
             (count (snd (post_subscribe (JString n) (JString channel) st)))
       \<and> (uuids st (uuid_calls st),
            \<lparr>subscriber_id = uuids st (uuid_calls st), subscriber_name = [],
              subscriber_channel = channel\<rparr>)
           \<in> set (subscribers (snd (post_subscribe (JString n) (JString channel) st)))
       \<and> (\<forall>name. fst (post_subscribe name (JString channel) st) = BadRequest (ascii ''name es requerido'')
            \<longleftrightarrow> \<not> (\<exists>s. name = JString s \<and> s \<noteq> []))"
proof -
  have inc: "Array_includes [ascii ''email'', ascii ''sms'', ascii ''push''] (JString channel)"
    using assms(3) by (auto simp: Array_includes_def)
  have ch: "channel \<noteq> []" using assms(3) by (auto simp: ascii_def)
  have t: "trim n = []" by (rule trim_all_whitespace [OF assms(2)])
  have 1: "post_subscribe (JString n) (JString channel) st =
      (SubscribeOk (fst (subscribeUser [] channel st)) (subscriberCount (snd (subscribeUser [] channel st))),
       snd (subscribeUser [] channel st))"
    using assms(1) inc ch t by (simp add: post_subscribe_def split: prod.splits)
  have 3: "fst (post_subscribe name (JString channel) st) = BadRequest (ascii ''name es requerido'')
            \<longleftrightarrow> \<not> (\<exists>s. name = JString s \<and> s \<noteq> [])" for name
    unfolding name_accepted_iff [symmetric]
    using inc ch by (auto simp: post_subscribe_def split: prod.splits)
  show ?thesis unfolding 1 using 3
    by (simp add: subscribeUser_fields subscriberCount_def Map_set_holds)
qed

theorem whitespace_name_is_stored_empty_witness:
  "[0x20, 0x09, 0xA0] \<noteq> [] \<and> list_all js_whitespace [0x20, 0x09, 0xA0]
   \<and> ascii ''push'' \<in> {ascii ''email'', ascii ''sms'', ascii ''push''}
   \<and> map subscriber_name (listSubscribers (snd (post_subscribe (JString [0x20, 0x09, 0xA0])
        (JString (ascii ''push'')) two_subscribers))) = [ascii ''Ana'', ascii ''Bo'', []]"
  using whitespace_name_is_stored_empty [of "[0x20, 0x09, 0xA0]" "ascii ''push''" two_subscribers]
  by (simp add: js_whitespace_def post_subscribe_def Array_includes_def trim_def
      subscribeUser_fields two_subscribers_eval listSubscribers_def Map_values_def
      example_state_def initial_def subscriberCount_def count_eq example_uuids_def ascii_def)

text \<open>
  Claim C10. \<open>publishEvent\<close>, for every title and type and whether or not it throws,
  leaves the registry, the listener map of the bus and the set of streaming clients as
  they were; it writes to no client, and the timers that were pending stay, new ones
  come after them. The same holds for the publish handler on any request body.
\<close>

theorem publishEvent_reads_only:
  "subscribers (snd (publishEvent title type st)) = subscribers st
   \<and> observers (snd (publishEvent title type st)) = observers st
   \<and> sseClients (snd (publishEvent title type st)) = sseClients st
   \<and> written (snd (publishEvent title type st)) = written st
   \<and> (\<exists>new. timers (snd (publishEvent title type st)) = timers st @ new)
   \<and> subscribers (snd (post_publish t ty st)) = subscribers st
   \<and> observers (snd (post_publish t ty st)) = observers st
   \<and> sseClients (snd (post_publish t ty st)) = sseClients st
   \<and> written (snd (post_publish t ty st)) = written st"
  using publishEvent_frame [of title type st] post_publish_frame [of t ty st]
  by simp

theorem publishEvent_reads_only_witness:
  "subscribers (snd (publishEvent (ascii ''X'') (ascii ''CREATED'') two_subscribers))
     = subscribers two_subscribers
   \<and> observers (snd (publishEvent (ascii ''X'') (ascii ''CREATED'') two_subscribers))
     = observers two_subscribers
   \<and> sseClients (snd (publishEvent (ascii ''X'') (ascii ''CREATED'') two_subscribers)) = []
   \<and> written (snd (publishEvent (ascii ''X'') (ascii ''CREATED'') two_subscribers)) = []
   \<and> length (timers (snd (publishEvent (ascii ''X'') (ascii ''CREATED'') two_subscribers))) = 2"
  using publishEvent_reads_only [of "ascii ''X''" "ascii ''CREATED''" two_subscribers]
  by (simp add: two_subscribers_eval publishEvent_def notifyAll_def Map_values_def update.simps
      NotificationFactory_create_def Date_now_def cryptoRandomId_def Math_random_def
      setTimeout_def Let_def example_state_def initial_def ascii_def)

end
